theory Spec2Isabelle
  imports Main "HOL-Library.Multiset"
begin

section \<open>The offline submission queue of \<^verbatim>\<open>src/components/form-layout.tsx\<close>\<close>

text \<open>
  The component \<^verbatim>\<open>FormLayout\<close> keeps six pieces of React state and talks to three
  parts of its environment: \<^verbatim>\<open>localStorage\<close>, the console and the timer queue.
  The embedding makes all of them fields of one record. A function of the component is
  a closure of one render: what it \<^emph>\<open>reads\<close> through a state variable
  (\<^verbatim>\<open>offlineSubmissions\<close>, \<^verbatim>\<open>formData\<close>, \<^verbatim>\<open>isOnline\<close>) is the value of the render that
  created the closure, what it \<^emph>\<open>writes\<close> through a setter goes to the current state.
  So every such function takes two components: \<open>r\<close>, the render it closes over, and
  \<open>s\<close>, the state it updates. An event handler of a fresh render is called with
  \<open>r = s\<close>; the continuation of an \<^verbatim>\<open>await\<close> and a timer callback keep the \<open>r\<close> they
  started with. Every read of \<^verbatim>\<open>Date.now()\<close> is a parameter of its own (milliseconds, a
  natural number): a function that reads the clock three times takes three values, in the
  order of the reads.

  Strings are \<open>string\<close>, so the characters are the code units below 256.
\<close>

subsection \<open>Data\<close>

record FormData =
  firstName :: string
  lastName :: string
  email :: string
  address :: string
  city :: string
  state :: string
  postalCode :: string

text \<open>\<^verbatim>\<open>interface FormErrors { [key: string]: string }\<close>: the keys in insertion order.\<close>

type_synonym FormErrors = "(string \<times> string) list"

datatype toast_type = success | error | info | offline

text \<open>
  The fields \<^verbatim>\<open>id\<close> and \<^verbatim>\<open>type\<close> of \<^verbatim>\<open>Toast\<close> and \<^verbatim>\<open>id\<close> of \<^verbatim>\<open>OfflineSubmission\<close>
  carry a prefix: \<open>id\<close> is a constant of HOL and a field name is global.
\<close>

record Toast =
  toast_id :: string
  toast_type :: toast_type
  message :: string

datatype status = pending | syncing | synced | failed

record OfflineSubmission =
  sub_id :: string
  data :: FormData
  timestamp :: nat
  status :: status

text \<open>
  The two callbacks the component hands to \<^verbatim>\<open>setTimeout\<close> with a delay that the claims
  speak of: the removal of one toast (it closes over the toast's id) and the purge of
  the synced submissions (it closes over \<^verbatim>\<open>offlineSubmissions\<close> of its render).
\<close>

datatype timer = RemoveToast string | PurgeSynced "OfflineSubmission list"

record component =
  formData :: FormData
  errors :: FormErrors
  isSubmitting :: bool
  toasts :: "Toast list"
  isOnline :: bool
  offlineSubmissions :: "OfflineSubmission list"
  localStorage :: "OfflineSubmission list option"
  storageFails :: bool
  console :: "string list"
  timers :: "(nat \<times> timer) list"
  apiCalls :: "string list"

text \<open>
  \<open>localStorage\<close> is the value under the key \<^verbatim>\<open>'offlineSubmissions'\<close> (\<open>None\<close>: no such
  key; \<^verbatim>\<open>JSON.parse\<close> undoes \<^verbatim>\<open>JSON.stringify\<close> on these records). \<open>storageFails\<close> says
  that \<^verbatim>\<open>localStorage.setItem\<close> throws (quota exceeded, storage disabled).
  \<open>console\<close> is what \<^verbatim>\<open>console.error\<close> has printed. \<open>timers\<close> are the pending
  \<^verbatim>\<open>setTimeout\<close> callbacks with the time they are due. \<open>apiCalls\<close> lists the ids of the
  submissions for which the simulated API call of line 180 was started.
\<close>

definition emptyForm :: FormData where
  "emptyForm = \<lparr>firstName = [], lastName = [], email = [], address = [], city = [],
     state = [], postalCode = []\<rparr>"

subsection \<open>\<^verbatim>\<open>Number.prototype.toString\<close> on a natural number\<close>

definition digit :: "nat \<Rightarrow> char" where
  "digit d = ''0123456789'' ! d"

fun toString :: "nat \<Rightarrow> string" where
  "toString n = (if n < 10 then [digit n] else toString (n div 10) @ [digit (n mod 10)])"

declare toString.simps [simp del]

definition digit_val :: "char \<Rightarrow> nat" where
  "digit_val c = of_char c - 48"

definition fromDigits :: "string \<Rightarrow> nat" where
  "fromDigits cs = foldl (\<lambda>a c. 10 * a + digit_val c) 0 cs"

subsection \<open>Persistence and toasts\<close>

definition loadOfflineSubmissions :: "component \<Rightarrow> component" where
  "loadOfflineSubmissions s =
     (case localStorage s of
        None \<Rightarrow> s
      | Some submissions \<Rightarrow> s\<lparr>offlineSubmissions := submissions\<rparr>)"

definition saveOfflineSubmissions :: "OfflineSubmission list \<Rightarrow> component \<Rightarrow> component" where
  "saveOfflineSubmissions submissions s =
     (if storageFails s
      then s\<lparr>console := console s @ [''Error saving offline submissions:'']\<rparr>
      else s\<lparr>localStorage := Some submissions\<rparr>)"

definition addToast :: "toast_type \<Rightarrow> string \<Rightarrow> nat \<Rightarrow> component \<Rightarrow> component" where
  "addToast ty msg now s =
     (let i = toString now;
          newToast = \<lparr>toast_id = i, toast_type = ty, message = msg\<rparr>
      in s\<lparr>toasts := toasts s @ [newToast],
           timers := timers s @ [(now + 5000, RemoveToast i)]\<rparr>)"

text \<open>Running a timer's callback.\<close>

fun fire :: "timer \<Rightarrow> component \<Rightarrow> component" where
  "fire (RemoveToast i) s = s\<lparr>toasts := filter (\<lambda>t. toast_id t \<noteq> i) (toasts s)\<rparr>"
| "fire (PurgeSynced subs) s =
     (let remainingSubmissions = filter (\<lambda>x. status x \<noteq> synced) subs
      in saveOfflineSubmissions remainingSubmissions
           (s\<lparr>offlineSubmissions := remainingSubmissions\<rparr>))"

subsection \<open>Validation\<close>

text \<open>
  \<^verbatim>\<open>\s\<close> of a JavaScript regular expression and the characters \<^verbatim>\<open>trim()\<close> strips are
  the same set; below 256 these are tab, line feed, vertical tab, form feed, carriage
  return, space and the no-break space.
\<close>

definition isSpace :: "char \<Rightarrow> bool" where
  "isSpace c = (of_char c \<in> {9, 10, 11, 12, 13, 32, 160 :: nat})"

definition trim :: "string \<Rightarrow> string" where
  "trim cs = rev (dropWhile isSpace (rev (dropWhile isSpace cs)))"

text \<open>
  Regular expressions, as far as the pattern of line 127 needs them, matched by
  derivatives. \<open>test\<close> is \<^verbatim>\<open>RegExp.prototype.test\<close> for a pattern between \<^verbatim>\<open>^\<close> and
  \<^verbatim>\<open>$\<close>: the whole string has to match.
\<close>

datatype rx = Zero | One | Atom "char \<Rightarrow> bool" | Alt rx rx | Seq rx rx | Star rx

definition Plus :: "rx \<Rightarrow> rx" where
  "Plus r = Seq r (Star r)"

fun nullable :: "rx \<Rightarrow> bool" where
  "nullable Zero = False"
| "nullable One = True"
| "nullable (Atom P) = False"
| "nullable (Alt r q) = (nullable r \<or> nullable q)"
| "nullable (Seq r q) = (nullable r \<and> nullable q)"
| "nullable (Star r) = True"

fun deriv :: "char \<Rightarrow> rx \<Rightarrow> rx" where
  "deriv c Zero = Zero"
| "deriv c One = Zero"
| "deriv c (Atom P) = (if P c then One else Zero)"
| "deriv c (Alt r q) = Alt (deriv c r) (deriv c q)"
| "deriv c (Seq r q) =
     (if nullable r then Alt (Seq (deriv c r) q) (deriv c q) else Seq (deriv c r) q)"
| "deriv c (Star r) = Seq (deriv c r) (Star r)"

fun test :: "rx \<Rightarrow> string \<Rightarrow> bool" where
  "test r [] = nullable r"
| "test r (c # cs) = test (deriv c r) cs"

text \<open>The class \<^verbatim>\<open>[^\s@]\<close> and the pattern \<^verbatim>\<open>/^[^\s@]+@[^\s@]+\.[^\s@]+$/\<close>.\<close>

definition notSpaceAt :: "char \<Rightarrow> bool" where
  "notSpaceAt c = (\<not> isSpace c \<and> c \<noteq> CHR ''@'')"

definition emailPattern :: rx where
  "emailPattern =
     Seq (Plus (Atom notSpaceAt))
       (Seq (Atom (\<lambda>c. c = CHR ''@''))
         (Seq (Plus (Atom notSpaceAt))
           (Seq (Atom (\<lambda>c. c = CHR ''.'')) (Plus (Atom notSpaceAt)))))"

text \<open>The object \<^verbatim>\<open>newErrors\<close> that \<^verbatim>\<open>validateForm\<close> builds from the render's form.\<close>

definition newErrors :: "FormData \<Rightarrow> FormErrors" where
  "newErrors fd =
     (if trim (firstName fd) = [] then [(''firstName'', ''First name is required'')] else [])
     @ (if trim (lastName fd) = [] then [(''lastName'', ''Last name is required'')] else [])
     @ (if trim (email fd) = [] then [(''email'', ''Email is required'')]
        else if \<not> test emailPattern (email fd) then [(''email'', ''Please enter a valid email'')]
        else [])"

definition validateForm :: "component \<Rightarrow> component \<Rightarrow> component \<times> bool" where
  "validateForm r s =
     (s\<lparr>errors := newErrors (formData r)\<rparr>, length (newErrors (formData r)) = 0)"

subsection \<open>Enqueueing a submission\<close>

text \<open>
  Line 150 reads the clock for the id (\<open>now\<close>) and line 152 reads it again for the
  timestamp (\<open>now2\<close>).
\<close>

definition saveOfflineSubmission ::
  "component \<Rightarrow> FormData \<Rightarrow> nat \<Rightarrow> nat \<Rightarrow> component \<Rightarrow> component \<times> string" where
  "saveOfflineSubmission r d now now2 s =
     (let submission = \<lparr>sub_id = toString now, data = d, timestamp = now2, status = pending\<rparr>;
          updatedSubmissions = offlineSubmissions r @ [submission]
      in (saveOfflineSubmissions updatedSubmissions
            (s\<lparr>offlineSubmissions := updatedSubmissions\<rparr>),
          sub_id submission))"

text \<open>
  A sequence of enqueue operations, each called from the render that follows the one
  before (React renders again between two events). An operation is given by the two
  values of the clock it reads and the record it enqueues.
\<close>

fun enqueueAll :: "(nat \<times> nat \<times> FormData) list \<Rightarrow> component \<Rightarrow> component" where
  "enqueueAll [] s = s"
| "enqueueAll ((now, now2, d) # es) s =
     enqueueAll es (fst (saveOfflineSubmission s d now now2 s))"

subsection \<open>Submitting the form\<close>

text \<open>
  \<open>handleSubmit\<close> is the handler up to its first \<^verbatim>\<open>await\<close> or its \<^verbatim>\<open>return\<close>; the
  boolean says that it is suspended at the \<^verbatim>\<open>await\<close> of the online path, and
  \<open>handleSubmitResume\<close> is the rest, with \<open>isSuccess\<close> the value of
  \<^verbatim>\<open>Math.random() > 0.3\<close>. \<open>now\<close>, \<open>now2\<close> and \<open>now3\<close> are the first, second and
  third value the handler reads from the clock: \<^verbatim>\<open>addToast\<close> makes the only read of the
  paths that do not enqueue, and the third of the offline path, after the two of
  \<^verbatim>\<open>saveOfflineSubmission\<close>. The offline path leaves through \<^verbatim>\<open>finally\<close>, which sets
  \<^verbatim>\<open>isSubmitting\<close> once more. Nothing inside the \<^verbatim>\<open>try\<close> throws (the promise always
  resolves and \<^verbatim>\<open>saveOfflineSubmissions\<close> catches its own error), so the \<^verbatim>\<open>catch\<close> block
  has no caller.
\<close>

definition handleSubmit ::
  "component \<Rightarrow> nat \<Rightarrow> nat \<Rightarrow> nat \<Rightarrow> component \<Rightarrow> component \<times> bool" where
  "handleSubmit r now now2 now3 s =
     (let (s1, valid) = validateForm r s in
      if \<not> valid then (addToast error ''Please fix the errors in the form'' now s1, False)
      else
        let s2 = s1\<lparr>isSubmitting := True\<rparr> in
        if \<not> isOnline r then
          let s3 = fst (saveOfflineSubmission r (formData r) now now2 s2);
              s4 = addToast offline ''Form saved offline! Will sync when connection returns.''
                     now3 s3;
              s5 = s4\<lparr>formData := emptyForm\<rparr>;
              s6 = s5\<lparr>isSubmitting := False\<rparr>
          in (s6\<lparr>isSubmitting := False\<rparr>, False)
        else (addToast info ''Submitting form...'' now s2, True))"

definition handleSubmitResume :: "bool \<Rightarrow> nat \<Rightarrow> component \<Rightarrow> component" where
  "handleSubmitResume isSuccess now s =
     (let s1 =
        (if isSuccess
         then (addToast success ''Form submitted successfully! Welcome to the workspace!'' now s)
                \<lparr>formData := emptyForm\<rparr>
         else addToast error ''Submission failed. Please try again.'' now s)
      in s1\<lparr>isSubmitting := False\<rparr>)"

subsection \<open>Synchronising\<close>

text \<open>The \<^verbatim>\<open>map\<close> of lines 173, 183 and 193 over the render's submissions.\<close>

definition withStatus :: "string \<Rightarrow> status \<Rightarrow> OfflineSubmission list \<Rightarrow> OfflineSubmission list" where
  "withStatus i st subs = map (\<lambda>x. if sub_id x = i then x\<lparr>status := st\<rparr> else x) subs"

text \<open>
  One turn of the loop is two synchronous blocks around the \<^verbatim>\<open>await\<close>: \<open>beginSync\<close>
  (lines 172 to 180, the call of the simulated API included) and \<open>endSync\<close> (lines 182
  to 200), where \<open>ok\<close> says that the awaited promise resolved. \<open>subs\<close> is
  \<^verbatim>\<open>offlineSubmissions\<close> of the render the invocation closes over.
\<close>

definition beginSync :: "OfflineSubmission list \<Rightarrow> OfflineSubmission \<Rightarrow> component \<Rightarrow> component" where
  "beginSync subs submission s =
     (let updatedSubmissions = withStatus (sub_id submission) syncing subs;
          s1 = saveOfflineSubmissions updatedSubmissions
                 (s\<lparr>offlineSubmissions := updatedSubmissions\<rparr>)
      in s1\<lparr>apiCalls := apiCalls s1 @ [sub_id submission]\<rparr>)"

definition endSync ::
  "OfflineSubmission list \<Rightarrow> bool \<Rightarrow> OfflineSubmission \<Rightarrow> nat \<Rightarrow> component \<Rightarrow> component" where
  "endSync subs ok submission now s =
     (if ok then
        let finalSubmissions = withStatus (sub_id submission) synced subs
        in addToast success ''Offline submission synced successfully!'' now
             (saveOfflineSubmissions finalSubmissions
                (s\<lparr>offlineSubmissions := finalSubmissions\<rparr>))
      else
        let failedSubmissions = withStatus (sub_id submission) failed subs
        in addToast error ''Failed to sync offline submission'' now
             (saveOfflineSubmissions failedSubmissions
                (s\<lparr>offlineSubmissions := failedSubmissions\<rparr>)))"

text \<open>Lines 203 to 208: the purge is handed to \<^verbatim>\<open>setTimeout\<close> with the render's list.\<close>

definition scheduleCleanup :: "OfflineSubmission list \<Rightarrow> nat \<Rightarrow> component \<Rightarrow> component" where
  "scheduleCleanup subs now s = s\<lparr>timers := timers s @ [(now + 3000, PurgeSynced subs)]\<rparr>"

text \<open>
  The \<^verbatim>\<open>for\<close> loop, run without another task in between: the \<^verbatim>\<open>await\<close> of a turn that
  began at \<open>now\<close> ends at \<open>now + 1000\<close>. \<open>api\<close> is the outcome of the remote call for a
  submission; the promise of line 180 always resolves, which is \<open>simulatedApiCall\<close>.
\<close>

fun syncLoop ::
  "(OfflineSubmission \<Rightarrow> bool) \<Rightarrow> OfflineSubmission list \<Rightarrow> OfflineSubmission list \<Rightarrow> nat
     \<Rightarrow> component \<Rightarrow> component" where
  "syncLoop api subs [] now s = scheduleCleanup subs now s"
| "syncLoop api subs (x # xs) now s =
     syncLoop api subs xs (now + 1000)
       (endSync subs (api x) x (now + 1000) (beginSync subs x s))"

definition simulatedApiCall :: "OfflineSubmission \<Rightarrow> bool" where
  "simulatedApiCall x = True"

definition syncOfflineSubmissions ::
  "(OfflineSubmission \<Rightarrow> bool) \<Rightarrow> component \<Rightarrow> nat \<Rightarrow> component \<Rightarrow> component" where
  "syncOfflineSubmissions api r now s =
     (let pendingSubmissions = filter (\<lambda>x. status x = pending) (offlineSubmissions r) in
      if length pendingSubmissions = 0 then s
      else syncLoop api (offlineSubmissions r) pendingSubmissions now
             (addToast info
                (''Syncing '' @ toString (length pendingSubmissions) @ '' offline submission(s)...'')
                now s))"

text \<open>
  The same function one synchronous block at a time, for runs in which other tasks come
  between the blocks. A suspended invocation is the render's list, the submission whose
  remote call is awaited and the pending submissions still to come.
\<close>

type_synonym syncTask = "OfflineSubmission list \<times> OfflineSubmission \<times> OfflineSubmission list"

definition syncStart :: "component \<Rightarrow> nat \<Rightarrow> component \<Rightarrow> component \<times> syncTask option" where
  "syncStart r now s =
     (case filter (\<lambda>x. status x = pending) (offlineSubmissions r) of
        [] \<Rightarrow> (s, None)
      | x # xs \<Rightarrow>
          (beginSync (offlineSubmissions r) x
             (addToast info
                (''Syncing '' @ toString (length (x # xs)) @ '' offline submission(s)...'')
                now s),
           Some (offlineSubmissions r, x, xs)))"

fun syncResume ::
  "(OfflineSubmission \<Rightarrow> bool) \<Rightarrow> syncTask \<Rightarrow> nat \<Rightarrow> component \<Rightarrow> component \<times> syncTask option" where
  "syncResume api (subs, x, []) now s =
     (scheduleCleanup subs now (endSync subs (api x) x now s), None)"
| "syncResume api (subs, x, y # ys) now s =
     (beginSync subs y (endSync subs (api x) x now s), Some (subs, y, ys))"

text \<open>
  Two invocations in flight: the schedule says, step by step, whose \<^verbatim>\<open>await\<close> ends next
  (\<open>True\<close>: the first) and at what time. A step for an invocation that has returned does
  nothing.
\<close>

fun interleave ::
  "(OfflineSubmission \<Rightarrow> bool) \<Rightarrow> (bool \<times> nat) list \<Rightarrow> syncTask option \<Rightarrow> syncTask option
     \<Rightarrow> component \<Rightarrow> component \<times> syncTask option \<times> syncTask option" where
  "interleave api [] a b s = (s, a, b)"
| "interleave api ((True, now) # sched) None b s = interleave api sched None b s"
| "interleave api ((True, now) # sched) (Some t) b s =
     (let (s1, a1) = syncResume api t now s in interleave api sched a1 b s1)"
| "interleave api ((False, now) # sched) a None s = interleave api sched a None s"
| "interleave api ((False, now) # sched) a (Some t) s =
     (let (s1, b1) = syncResume api t now s in interleave api sched a b1 s1)"

subsection \<open>The Clear Form button\<close>

definition clearForm :: "component \<Rightarrow> component" where
  "clearForm s = s\<lparr>formData := emptyForm, errors := []\<rparr>"

section \<open>Notions used to state the properties\<close>

subsection \<open>The language of a pattern\<close>

text \<open>
  What a pattern matches, as a set of strings, and the form of an address the
  pattern of line 127 stands for in words: a local part, \<^verbatim>\<open>@\<close>, a domain, a dot and a
  last label, all three non-empty and free of whitespace and \<^verbatim>\<open>@\<close> (the domain and the
  label may hold further dots).
\<close>

definition conc :: "string set \<Rightarrow> string set \<Rightarrow> string set" where
  "conc A B = {u @ v | u v. u \<in> A \<and> v \<in> B}"

inductive_set star :: "string set \<Rightarrow> string set" for A :: "string set" where
  star_empty: "[] \<in> star A"
| star_more: "u \<in> A \<Longrightarrow> v \<in> star A \<Longrightarrow> u @ v \<in> star A"

fun lang :: "rx \<Rightarrow> string set" where
  "lang Zero = {}"
| "lang One = {[]}"
| "lang (Atom P) = {[c] | c. P c}"
| "lang (Alt r q) = lang r \<union> lang q"
| "lang (Seq r q) = conc (lang r) (lang q)"
| "lang (Star r) = star (lang r)"

definition simpleEmail :: "string \<Rightarrow> bool" where
  "simpleEmail e =
     (\<exists>l d t. e = l @ ''@'' @ d @ ''.'' @ t \<and> l \<noteq> [] \<and> d \<noteq> [] \<and> t \<noteq> []
        \<and> list_all notSpaceAt l \<and> list_all notSpaceAt d \<and> list_all notSpaceAt t)"

subsection \<open>Two invocations in flight\<close>

text \<open>
  \<open>todo\<close> lists the ids a suspended invocation has still to send. \<open>twoInvocations\<close>
  is the run in which the Sync Now button is pressed twice: the first invocation starts
  at \<open>n1\<close> from the render of \<open>s0\<close> and runs alone along \<open>sched1\<close>; the component has
  rendered again (\<open>secondRender\<close> gives that state) when the second invocation starts at
  \<open>n2\<close>; then both go on along \<open>sched2\<close>.
\<close>

definition todo :: "syncTask option \<Rightarrow> string list" where
  "todo a = (case a of None \<Rightarrow> [] | Some (subs, x, ys) \<Rightarrow> map sub_id ys)"

definition secondRender ::
  "(OfflineSubmission \<Rightarrow> bool) \<Rightarrow> nat \<Rightarrow> (bool \<times> nat) list \<Rightarrow> component
     \<Rightarrow> component \<times> syncTask option" where
  "secondRender api n1 sched1 s0 =
     (let (s1, a) = syncStart s0 n1 s0;
          (s2, a1, b1) = interleave api sched1 a None s1
      in (s2, a1))"

definition twoInvocations ::
  "(OfflineSubmission \<Rightarrow> bool) \<Rightarrow> nat \<Rightarrow> (bool \<times> nat) list \<Rightarrow> nat \<Rightarrow> (bool \<times> nat) list
     \<Rightarrow> component \<Rightarrow> component \<times> syncTask option \<times> syncTask option" where
  "twoInvocations api n1 sched1 n2 sched2 s0 =
     (let (s2, a1) = secondRender api n1 sched1 s0;
          (s3, b) = syncStart s2 n2 s2
      in interleave api sched2 a1 b s3)"

text \<open>
  The schedule of an invocation that runs alone from \<open>now\<close>: \<open>n\<close> ends of
  \<^verbatim>\<open>await\<close>, one second apart.
\<close>

fun ticks :: "nat \<Rightarrow> nat \<Rightarrow> (bool \<times> nat) list" where
  "ticks now 0 = []"
| "ticks now (Suc n) = (True, now + 1000) # ticks (now + 1000) n"

subsection \<open>The session's memory\<close>

text \<open>
  A component with everything that belongs to durable storage blanked out: what is left
  is the React state, the timers and the remote calls made.
\<close>

definition inMemory :: "component \<Rightarrow> component" where
  "inMemory s = s\<lparr>localStorage := None, storageFails := False, console := []\<rparr>"

subsection \<open>Example states\<close>

text \<open>
  The record of the scenarios, a submission made from it at time \<open>t\<close>, the component
  as first mounted, and the component holding two submissions that were enqueued at
  times 100 and 200 and are still pending.
\<close>

definition exampleForm :: FormData where
  "exampleForm = \<lparr>firstName = ''A'', lastName = ''B'', email = ''a@b.co'', address = [],
     city = [], state = [], postalCode = []\<rparr>"

definition submission :: "nat \<Rightarrow> status \<Rightarrow> OfflineSubmission" where
  "submission t st = \<lparr>sub_id = toString t, data = exampleForm, timestamp = t, status = st\<rparr>"

definition mounted :: component where
  "mounted = \<lparr>formData = emptyForm, errors = [], isSubmitting = False, toasts = [],
     isOnline = True, offlineSubmissions = [], localStorage = None, storageFails = False,
     console = [], timers = [], apiCalls = []\<rparr>"

definition twoPending :: component where
  "twoPending = mounted\<lparr>offlineSubmissions := [submission 100 pending, submission 200 pending],
     localStorage := Some [submission 100 pending, submission 200 pending]\<rparr>"

text \<open>
  Further states: a queue with nothing pending, the valid record typed in while
  offline, the record without a first name, and the record whose first name is one
  space.
\<close>

definition settled :: component where
  "settled = mounted\<lparr>offlineSubmissions := [submission 100 synced, submission 200 failed]\<rparr>"


definition noFirstName :: component where
  "noFirstName = mounted\<lparr>formData := exampleForm\<lparr>firstName := []\<rparr>\<rparr>"

definition blankFirstName :: FormData where
  "blankFirstName = exampleForm\<lparr>firstName := '' ''\<rparr>"

section \<open>Properties\<close>

subsection \<open>Decimal rendering is injective\<close>

lemma digit_val_digit: "d < 10 \<Longrightarrow> digit_val (digit d) = d"
proof -
  assume "d < 10"
  then have "d \<in> {0, 1, 2, 3, 4, 5, 6, 7, 8, 9}" by auto
  then show ?thesis
    by (auto simp: digit_def digit_val_def)
qed

lemma fromDigits_snoc: "fromDigits (cs @ [c]) = 10 * fromDigits cs + digit_val c"
  by (simp add: fromDigits_def)

lemma fromDigits_toString: "fromDigits (toString n) = n"
proof (induction n rule: toString.induct)
  case (1 n)
  show ?case
  proof (cases "n < 10")
    case True
    then show ?thesis
      by (subst toString.simps) (simp add: fromDigits_def digit_val_digit)
  next
    case False
    with 1 have "fromDigits (toString (n div 10)) = n div 10" by simp
    with False show ?thesis
      by (subst toString.simps) (simp add: fromDigits_snoc digit_val_digit)
  qed
qed

lemma toString_inj: "toString m = toString n \<Longrightarrow> m = n"
  by (metis fromDigits_toString)

subsection \<open>The matcher and the language\<close>

lemma nullable_lang: "nullable r \<longleftrightarrow> [] \<in> lang r"
  by (induction r) (auto simp: conc_def intro: star_empty)

lemma star_split_head:
  assumes "x \<in> star A" and "x = c # w"
  shows "\<exists>u v. w = u @ v \<and> c # u \<in> A \<and> v \<in> star A"
  using assms
proof (induction arbitrary: w rule: star.induct)
  case star_empty
  then show ?case by simp
next
  case (star_more u v)
  show ?case
  proof (cases u)
    case Nil
    with star_more.prems have "v = c # w" by simp
    then show ?thesis by (rule star_more.IH)
  next
    case (Cons a u')
    with star_more.prems have "a = c" and "w = u' @ v" by simp_all
    with star_more.hyps Cons show ?thesis by blast
  qed
qed

lemma cons_in_star: "c # w \<in> star A \<longleftrightarrow> (\<exists>u v. w = u @ v \<and> c # u \<in> A \<and> v \<in> star A)"
proof
  assume "c # w \<in> star A"
  then show "\<exists>u v. w = u @ v \<and> c # u \<in> A \<and> v \<in> star A"
    by (rule star_split_head) simp
next
  assume "\<exists>u v. w = u @ v \<and> c # u \<in> A \<and> v \<in> star A"
  then obtain u v where "w = u @ v" "c # u \<in> A" "v \<in> star A" by blast
  then have "(c # u) @ v \<in> star A" by (intro star_more)
  with \<open>w = u @ v\<close> show "c # w \<in> star A" by simp
qed

lemma cons_in_conc:
  "c # w \<in> conc A B \<longleftrightarrow>
     ([] \<in> A \<and> c # w \<in> B) \<or> (\<exists>u v. w = u @ v \<and> c # u \<in> A \<and> v \<in> B)"
  unfolding conc_def by (auto simp: Cons_eq_append_conv)

lemma lang_deriv: "w \<in> lang (deriv c r) \<longleftrightarrow> c # w \<in> lang r"
proof (induction r arbitrary: w)
  case (Seq r q)
  then show ?case
    by (auto simp: cons_in_conc nullable_lang) (auto simp: conc_def)
next
  case (Star r)
  then show ?case
    by (auto simp: cons_in_star conc_def)
qed auto

lemma test_lang: "test r w \<longleftrightarrow> w \<in> lang r"
  by (induction w arbitrary: r) (simp_all add: nullable_lang lang_deriv)

lemma star_atoms: "w \<in> star {[c] | c. P c} \<longleftrightarrow> list_all P w"
proof
  assume "w \<in> star {[c] | c. P c}"
  then show "list_all P w"
    by (induction rule: star.induct) auto
next
  assume "list_all P w"
  then show "w \<in> star {[c] | c. P c}"
  proof (induction w)
    case Nil
    show ?case by (rule star_empty)
  next
    case (Cons c w)
    then have "[c] \<in> {[c] | c. P c}" and "w \<in> star {[c] | c. P c}" by auto
    then have "[c] @ w \<in> star {[c] | c. P c}" by (rule star_more)
    then show ?case by simp
  qed
qed

lemma lang_Plus_Atom: "w \<in> lang (Plus (Atom P)) \<longleftrightarrow> w \<noteq> [] \<and> list_all P w"
proof (cases w)
  case Nil
  then show ?thesis by (simp add: Plus_def conc_def)
next
  case (Cons c v)
  then show ?thesis
    by (auto simp: Plus_def cons_in_conc star_atoms)
qed

lemma lang_emailPattern: "e \<in> lang emailPattern \<longleftrightarrow> simpleEmail e"
proof -
  have "e \<in> lang emailPattern \<longleftrightarrow>
        (\<exists>l x. e = l @ x \<and> l \<in> lang (Plus (Atom notSpaceAt)) \<and>
          (\<exists>y. x = ''@'' @ y \<and>
            (\<exists>d z. y = d @ z \<and> d \<in> lang (Plus (Atom notSpaceAt)) \<and>
              (\<exists>t. z = ''.'' @ t \<and> t \<in> lang (Plus (Atom notSpaceAt))))))"
    unfolding emailPattern_def lang.simps(5) conc_def
    by (simp only: lang.simps(3) mem_Collect_eq) auto
  also have "\<dots> \<longleftrightarrow> simpleEmail e"
    unfolding simpleEmail_def lang_Plus_Atom by auto blast
  finally show ?thesis .
qed

lemma test_emailPattern: "test emailPattern e \<longleftrightarrow> simpleEmail e"
  by (simp add: test_lang lang_emailPattern)

lemma trim_empty: "trim cs = [] \<longleftrightarrow> list_all isSpace cs"
proof (cases "dropWhile isSpace cs")
  case Nil
  then have "list_all isSpace cs"
    by (simp add: list_all_iff)
  moreover have "trim cs = []"
    unfolding trim_def Nil by simp
  ultimately show ?thesis by simp
next
  case (Cons c rest)
  then have c: "\<not> isSpace c" and "c \<in> set cs"
    using hd_dropWhile [of isSpace cs] set_dropWhileD [of c isSpace cs] by auto
  then have "\<not> list_all isSpace cs"
    by (auto simp: list_all_iff)
  moreover have "dropWhile isSpace (rev (c # rest)) \<noteq> []"
    using c by (simp add: dropWhile_append)
  then have "trim cs \<noteq> []"
    unfolding trim_def Cons by simp
  ultimately show ?thesis by simp
qed

lemma simpleEmail_not_blank: "simpleEmail e \<Longrightarrow> trim e \<noteq> []"
  by (auto simp: simpleEmail_def trim_empty notSpaceAt_def isSpace_def)

lemma newErrors_exampleForm: "newErrors exampleForm = []"
  by (simp add: newErrors_def exampleForm_def trim_def isSpace_def emailPattern_def Plus_def
      notSpaceAt_def)

lemma simpleEmail_example: "simpleEmail ''a@b.co''"
  unfolding test_emailPattern [symmetric]
  by (simp add: emailPattern_def Plus_def notSpaceAt_def isSpace_def)

subsection \<open>What \<^verbatim>\<open>validateForm\<close> reports\<close>

lemma newErrors_empty:
  "newErrors fd = [] \<longleftrightarrow>
     trim (firstName fd) \<noteq> [] \<and> trim (lastName fd) \<noteq> [] \<and> simpleEmail (email fd)"
  using simpleEmail_not_blank [of "email fd"]
  by (auto simp: newErrors_def test_emailPattern)

lemma newErrors_fields:
  "map_of (newErrors fd) ''firstName'' =
     (if trim (firstName fd) = [] then Some ''First name is required'' else None)"
  "map_of (newErrors fd) ''lastName'' =
     (if trim (lastName fd) = [] then Some ''Last name is required'' else None)"
  "map_of (newErrors fd) ''email'' =
     (if trim (email fd) = [] then Some ''Email is required''
      else if simpleEmail (email fd) then None else Some ''Please enter a valid email'')"
  by (simp_all add: newErrors_def test_emailPattern)

lemma newErrors_only_firstName:
  assumes "firstName fd = []" and "trim (lastName fd) \<noteq> []" and "simpleEmail (email fd)"
  shows "newErrors fd = [(''firstName'', ''First name is required'')]"
  using assms simpleEmail_not_blank [of "email fd"]
  by (simp add: newErrors_def test_emailPattern trim_def)

subsection \<open>Operations agree on states with the same memory\<close>

lemma inMemory_save:
  "inMemory s = inMemory t \<Longrightarrow>
   inMemory (saveOfflineSubmissions subs (s\<lparr>offlineSubmissions := xs\<rparr>)) =
   inMemory (saveOfflineSubmissions subs (t\<lparr>offlineSubmissions := xs\<rparr>))"
  by (cases s, cases t) (simp add: inMemory_def saveOfflineSubmissions_def)

lemma inMemory_addToast:
  "inMemory s = inMemory t \<Longrightarrow> inMemory (addToast ty msg now s) = inMemory (addToast ty msg now t)"
  by (cases s, cases t) (simp add: inMemory_def addToast_def Let_def)

lemma inMemory_beginSync:
  "inMemory s = inMemory t \<Longrightarrow> inMemory (beginSync subs x s) = inMemory (beginSync subs x t)"
  by (cases s, cases t) (simp add: inMemory_def beginSync_def saveOfflineSubmissions_def Let_def)

lemma inMemory_endSync:
  "inMemory s = inMemory t \<Longrightarrow> inMemory (endSync subs ok x now s) = inMemory (endSync subs ok x now t)"
  by (cases s, cases t)
    (simp add: inMemory_def endSync_def saveOfflineSubmissions_def addToast_def Let_def)

lemma inMemory_scheduleCleanup:
  "inMemory s = inMemory t \<Longrightarrow> inMemory (scheduleCleanup subs now s) = inMemory (scheduleCleanup subs now t)"
  by (cases s, cases t) (simp add: inMemory_def scheduleCleanup_def)

lemma inMemory_syncLoop:
  "inMemory s = inMemory t \<Longrightarrow> inMemory (syncLoop api subs xs now s) = inMemory (syncLoop api subs xs now t)"
proof (induction xs arbitrary: now s t)
  case Nil
  then show ?case
    unfolding syncLoop.simps by (rule inMemory_scheduleCleanup)
next
  case (Cons x xs)
  have "inMemory (beginSync subs x s) = inMemory (beginSync subs x t)"
    by (rule inMemory_beginSync [OF Cons.prems])
  then have "inMemory (endSync subs (api x) x (now + 1000) (beginSync subs x s)) =
             inMemory (endSync subs (api x) x (now + 1000) (beginSync subs x t))"
    by (rule inMemory_endSync)
  then show ?case
    unfolding syncLoop.simps by (rule Cons.IH)
qed

lemma inMemory_sync:
  "inMemory s = inMemory t \<Longrightarrow>
   inMemory (syncOfflineSubmissions api r now s) = inMemory (syncOfflineSubmissions api r now t)"
  unfolding syncOfflineSubmissions_def Let_def
  by (auto intro: inMemory_syncLoop inMemory_addToast)

lemma inMemory_fire:
  "inMemory s = inMemory t \<Longrightarrow> inMemory (fire tm s) = inMemory (fire tm t)"
proof (cases tm)
  case (RemoveToast i)
  then show ?thesis if "inMemory s = inMemory t"
    using that by (cases s, cases t) (simp add: inMemory_def)
next
  case (PurgeSynced subs)
  then show ?thesis if "inMemory s = inMemory t"
    using that unfolding PurgeSynced fire.simps Let_def by (intro inMemory_save)
qed

lemma inMemory_saveOfflineSubmission:
  "inMemory s = inMemory t \<Longrightarrow>
   inMemory (fst (saveOfflineSubmission r d now now2 s)) =
   inMemory (fst (saveOfflineSubmission r d now now2 t))"
  unfolding saveOfflineSubmission_def Let_def fst_conv by (rule inMemory_save)

lemma inMemory_handleSubmit:
  "inMemory s = inMemory t \<Longrightarrow>
   inMemory (fst (handleSubmit r now now2 now3 s)) =
   inMemory (fst (handleSubmit r now now2 now3 t))"
  by (cases s, cases t)
    (simp add: handleSubmit_def validateForm_def saveOfflineSubmission_def
      saveOfflineSubmissions_def addToast_def inMemory_def Let_def)

subsection \<open>Evaluating the examples\<close>

lemma toString_eq: "toString m = toString n \<longleftrightarrow> m = n"
  using toString_inj by blast

lemma toString_example: "toString 100 = ''100''" "toString 200 = ''200''"
  by code_simp+

lemmas sync_defs = syncStart_def syncOfflineSubmissions_def beginSync_def endSync_def
  scheduleCleanup_def saveOfflineSubmissions_def addToast_def withStatus_def
  simulatedApiCall_def twoPending_def mounted_def submission_def Let_def

subsection \<open>The loop and its blocks\<close>

text \<open>
  An invocation that is resumed every second with nothing in between is the loop of
  \<open>syncOfflineSubmissions\<close>.
\<close>

lemma syncLoop_as_steps:
  "interleave api (ticks now (Suc (length xs))) (Some (subs, x, xs)) None (beginSync subs x s) =
     (syncLoop api subs (x # xs) now s, None, None)"
proof (induction xs arbitrary: x now s)
  case Nil
  show ?case by simp
next
  case (Cons y ys)
  have "interleave api (ticks now (Suc (length (y # ys)))) (Some (subs, x, y # ys)) None
          (beginSync subs x s) =
        interleave api (ticks (now + 1000) (Suc (length ys))) (Some (subs, y, ys)) None
          (beginSync subs y (endSync subs (api x) x (now + 1000) (beginSync subs x s)))"
    by simp
  also have "\<dots> = (syncLoop api subs (y # ys) (now + 1000)
                     (endSync subs (api x) x (now + 1000) (beginSync subs x s)), None, None)"
    by (rule Cons.IH)
  finally show ?case by simp
qed

lemma sync_as_steps:
  "syncOfflineSubmissions api r now s =
     fst (interleave api
            (ticks now (length (filter (\<lambda>x. status x = pending) (offlineSubmissions r))))
            (snd (syncStart r now s)) None (fst (syncStart r now s)))"
proof (cases "filter (\<lambda>x. status x = pending) (offlineSubmissions r)")
  case Nil
  then show ?thesis
    by (simp add: syncOfflineSubmissions_def syncStart_def)
next
  case (Cons x xs)
  then show ?thesis
    by (simp add: syncOfflineSubmissions_def syncStart_def syncLoop_as_steps
        del: syncLoop.simps interleave.simps ticks.simps)
qed

subsection \<open>Remote calls of interleaved invocations\<close>

lemma apiCalls_addToast: "apiCalls (addToast ty msg now s) = apiCalls s"
  by (simp add: addToast_def Let_def)

lemma apiCalls_beginSync: "apiCalls (beginSync subs x s) = apiCalls s @ [sub_id x]"
  by (simp add: beginSync_def saveOfflineSubmissions_def Let_def)

lemma apiCalls_endSync: "apiCalls (endSync subs ok x now s) = apiCalls s"
  by (simp add: endSync_def saveOfflineSubmissions_def addToast_def Let_def)

lemma apiCalls_scheduleCleanup: "apiCalls (scheduleCleanup subs now s) = apiCalls s"
  by (simp add: scheduleCleanup_def)

lemma syncResume_calls:
  assumes "syncResume api t now s = (s1, a1)"
  shows "mset (apiCalls s1) + mset (todo a1) = mset (apiCalls s) + mset (todo (Some t))"
proof -
  obtain subs x ys where t: "t = (subs, x, ys)" by (cases t)
  show ?thesis
  proof (cases ys)
    case Nil
    with assms t show ?thesis
      by (auto simp: todo_def apiCalls_scheduleCleanup apiCalls_endSync)
  next
    case (Cons y ys')
    with assms t show ?thesis
      by (auto simp: todo_def apiCalls_beginSync apiCalls_endSync)
  qed
qed

lemma syncStart_calls:
  assumes "syncStart r now s = (s1, a)"
  shows "mset (apiCalls s1) + mset (todo a) =
         mset (apiCalls s) + mset (map sub_id (filter (\<lambda>x. status x = pending) (offlineSubmissions r)))"
proof (cases "filter (\<lambda>x. status x = pending) (offlineSubmissions r)")
  case Nil
  with assms have "s1 = s" and "a = None"
    by (simp_all add: syncStart_def)
  with Nil show ?thesis
    by (simp add: todo_def)
next
  case (Cons x xs)
  with assms have "apiCalls s1 = apiCalls s @ [sub_id x]" and "a = Some (offlineSubmissions r, x, xs)"
    by (auto simp: syncStart_def apiCalls_beginSync apiCalls_addToast)
  with Cons show ?thesis
    by (simp add: todo_def)
qed

lemma interleave_alone:
  "interleave api sched a None s = (s', a', b') \<Longrightarrow> b' = None"
proof (induction sched arbitrary: a s)
  case Nil
  then show ?case by simp
next
  case (Cons step sched)
  obtain w now where step: "step = (w, now)" by (cases step)
  show ?case
  proof (cases w)
    case False
    with Cons step show ?thesis by simp
  next
    case True
    show ?thesis
    proof (cases a)
      case None
      with Cons step True show ?thesis by simp
    next
      case (Some t)
      obtain s1 a1 where "syncResume api t now s = (s1, a1)" by (cases "syncResume api t now s")
      with Cons step True Some show ?thesis by simp
    qed
  qed
qed

lemma interleave_calls:
  "interleave api sched a b s = (s', a', b') \<Longrightarrow>
   mset (apiCalls s') + mset (todo a') + mset (todo b') =
   mset (apiCalls s) + mset (todo a) + mset (todo b)"
proof (induction api sched a b s rule: interleave.induct)
  case (1 api a b s)
  then show ?case by simp
next
  case (2 api now sched b s)
  then show ?case by simp
next
  case (3 api now sched t b s)
  obtain s1 a1 where r: "syncResume api t now s = (s1, a1)" by (cases "syncResume api t now s")
  from 3 r have "mset (apiCalls s') + mset (todo a') + mset (todo b') =
                 mset (apiCalls s1) + mset (todo a1) + mset (todo b)"
    by simp
  with syncResume_calls [OF r] show ?case
    by (simp add: ac_simps)
next
  case (4 api now sched a s)
  then show ?case by simp
next
  case (5 api now sched a t s)
  obtain s1 b1 where r: "syncResume api t now s = (s1, b1)" by (cases "syncResume api t now s")
  from 5 r have "mset (apiCalls s') + mset (todo a') + mset (todo b') =
                 mset (apiCalls s1) + mset (todo a) + mset (todo b1)"
    by simp
  with syncResume_calls [OF r] show ?case
    by (simp add: ac_simps)
qed

subsection \<open>The store after a run\<close>

text \<open>
  Whatever the state, a run that succeeds leaves the render's list with the status of
  its last pending submission set to synced and nothing else changed, and the purge
  leaves the render's list without the entries that were synced in the render.
\<close>

lemma offlineSubmissions_endSync:
  "offlineSubmissions (endSync subs ok x now s) =
     withStatus (sub_id x) (if ok then synced else failed) subs"
  by (simp add: endSync_def saveOfflineSubmissions_def addToast_def Let_def)

lemma syncLoop_store:
  "xs \<noteq> [] \<Longrightarrow>
   offlineSubmissions (syncLoop api subs xs now s) =
     withStatus (sub_id (last xs)) (if api (last xs) then synced else failed) subs"
proof (induction xs arbitrary: now s)
  case Nil
  then show ?case by simp
next
  case (Cons x xs)
  show ?case
  proof (cases xs)
    case Nil
    then show ?thesis
      by (simp add: scheduleCleanup_def offlineSubmissions_endSync)
  next
    case (Cons y ys)
    with Cons.IH [of "now + 1000" "endSync subs (api x) x (now + 1000) (beginSync subs x s)"]
    show ?thesis by simp
  qed
qed

lemma sync_store:
  assumes "filter (\<lambda>x. status x = pending) (offlineSubmissions r) \<noteq> []"
  shows "offlineSubmissions (syncOfflineSubmissions simulatedApiCall r now s) =
     withStatus (sub_id (last (filter (\<lambda>x. status x = pending) (offlineSubmissions r)))) synced
       (offlineSubmissions r)"
  using assms
  by (simp add: syncOfflineSubmissions_def Let_def syncLoop_store simulatedApiCall_def)

lemma purge_store:
  "offlineSubmissions (fire (PurgeSynced subs) s) = filter (\<lambda>x. status x \<noteq> synced) subs"
  by (simp add: saveOfflineSubmissions_def Let_def)

subsection \<open>The round trip\<close>

text \<open>
  C1. Two submissions are pending and \<^verbatim>\<open>syncOfflineSubmissions\<close> runs to completion
  with the remote call succeeding each time. Every \<^verbatim>\<open>map\<close> of the loop starts again from
  the list of the render, in which both are pending: at the end the first submission is
  pending and only the second is synced. One toast announces the run and one each
  outcome. The purge, three seconds later, filters the render's list as well and puts
  both submissions back as pending, the synced one included.
\<close>

theorem sync_roundtrip_on_stale_render:
  "map status (offlineSubmissions twoPending) = [pending, pending]
   \<and> map status (offlineSubmissions (syncOfflineSubmissions simulatedApiCall twoPending 1000 twoPending))
       = [pending, synced]
   \<and> map toast_type (toasts (syncOfflineSubmissions simulatedApiCall twoPending 1000 twoPending))
       = [info, success, success]
   \<and> last (timers (syncOfflineSubmissions simulatedApiCall twoPending 1000 twoPending))
       = (6000, PurgeSynced (offlineSubmissions twoPending))
   \<and> map status (offlineSubmissions (fire (PurgeSynced (offlineSubmissions twoPending))
         (syncOfflineSubmissions simulatedApiCall twoPending 1000 twoPending)))
       = [pending, pending]"
  by (simp add: sync_defs toString_eq)

subsection \<open>The order of the statuses\<close>

text \<open>
  C2. In the same run the first submission is synced when its turn of the loop ends
  and pending again as soon as the turn of the second begins: a status goes back from
  synced to pending, and no retry was asked for.
\<close>

theorem status_regresses_between_turns:
  "map status (offlineSubmissions
       (endSync (offlineSubmissions twoPending) True (submission 100 pending) 2000
         (beginSync (offlineSubmissions twoPending) (submission 100 pending) twoPending)))
     = [synced, pending]
   \<and> map status (offlineSubmissions
       (beginSync (offlineSubmissions twoPending) (submission 200 pending)
         (endSync (offlineSubmissions twoPending) True (submission 100 pending) 2000
           (beginSync (offlineSubmissions twoPending) (submission 100 pending) twoPending))))
     = [pending, syncing]"
  by (simp add: sync_defs toString_eq)

subsection \<open>Enqueueing\<close>

lemma enqueueAll_append:
  "offlineSubmissions (enqueueAll es s) =
     offlineSubmissions s @
       map (\<lambda>(now, now2, d).
              \<lparr>sub_id = toString now, data = d, timestamp = now2, status = pending\<rparr>) es"
proof (induction es arbitrary: s)
  case Nil
  then show ?case by simp
next
  case (Cons e es)
  obtain now now2 d where e: "e = (now, now2, d)" by (cases e)
  show ?case
    unfolding e
    by (simp add: Cons.IH saveOfflineSubmission_def saveOfflineSubmissions_def Let_def)
qed

lemma enqueueAll_persisted:
  assumes "\<not> storageFails s" and "localStorage s = Some (offlineSubmissions s)"
  shows "localStorage (enqueueAll es s) = Some (offlineSubmissions (enqueueAll es s))"
  using assms
proof (induction es arbitrary: s)
  case Nil
  then show ?case by simp
next
  case (Cons e es)
  obtain now now2 d where e: "e = (now, now2, d)" by (cases e)
  let ?s1 = "fst (saveOfflineSubmission s d now now2 s)"
  have "\<not> storageFails ?s1" and "localStorage ?s1 = Some (offlineSubmissions ?s1)"
    using Cons.prems(1)
    by (simp_all add: saveOfflineSubmission_def saveOfflineSubmissions_def Let_def)
  then have "localStorage (enqueueAll es ?s1) = Some (offlineSubmissions (enqueueAll es ?s1))"
    by (rule Cons.IH)
  then show ?case
    unfolding e by simp
qed

lemma enqueueAll_persisted_first:
  assumes "\<not> storageFails s" and "es \<noteq> []"
  shows "localStorage (enqueueAll es s) = Some (offlineSubmissions (enqueueAll es s))"
proof -
  obtain now now2 d es' where es: "es = (now, now2, d) # es'"
    using assms(2) by (cases es) auto
  let ?s1 = "fst (saveOfflineSubmission s d now now2 s)"
  have "\<not> storageFails ?s1" and "localStorage ?s1 = Some (offlineSubmissions ?s1)"
    using assms(1)
    by (simp_all add: saveOfflineSubmission_def saveOfflineSubmissions_def Let_def)
  then have "localStorage (enqueueAll es' ?s1) = Some (offlineSubmissions (enqueueAll es' ?s1))"
    by (rule enqueueAll_persisted)
  then show ?thesis
    unfolding es by simp
qed

text \<open>
  C3. Starting from an empty store, after any sequence of enqueue operations (each in
  the render that follows the one before) the store holds exactly the enqueued records
  in the order of insertion, each pending, each with the timestamp it read, and all
  written through to the persisted copy while the storage works. The id of a record is
  the decimal form of the value \<^verbatim>\<open>Date.now()\<close> had at line 150 of its enqueue, so the
  ids are pairwise different exactly when no two operations read the same millisecond
  there.
\<close>

theorem enqueue_postcondition:
  assumes "offlineSubmissions s = []"
  shows "map data (offlineSubmissions (enqueueAll es s)) = map (\<lambda>e. snd (snd e)) es
       \<and> map timestamp (offlineSubmissions (enqueueAll es s)) = map (\<lambda>e. fst (snd e)) es
       \<and> map sub_id (offlineSubmissions (enqueueAll es s)) = map (\<lambda>e. toString (fst e)) es
       \<and> list_all (\<lambda>x. status x = pending) (offlineSubmissions (enqueueAll es s))
       \<and> (distinct (map sub_id (offlineSubmissions (enqueueAll es s)))
            \<longleftrightarrow> distinct (map fst es))
       \<and> (\<not> storageFails s \<and> es \<noteq> [] \<longrightarrow>
            localStorage (enqueueAll es s) = Some (offlineSubmissions (enqueueAll es s)))"
proof -
  have subs: "offlineSubmissions (enqueueAll es s) =
      map (\<lambda>(now, now2, d).
             \<lparr>sub_id = toString now, data = d, timestamp = now2, status = pending\<rparr>) es"
    using assms by (simp add: enqueueAll_append)
  have ids: "map sub_id (offlineSubmissions (enqueueAll es s)) = map (\<lambda>e. toString (fst e)) es"
    unfolding subs by (simp add: case_prod_unfold)
  have "map (\<lambda>e. toString (fst e)) es = map toString (map fst es)"
    by simp
  moreover have "inj_on toString (set (map fst es))"
    by (rule inj_onI) (rule toString_inj)
  ultimately have "distinct (map (\<lambda>e. toString (fst e)) es) \<longleftrightarrow> distinct (map fst es)"
    by (simp only: distinct_map) simp
  then have uniq: "distinct (map sub_id (offlineSubmissions (enqueueAll es s)))
      \<longleftrightarrow> distinct (map fst es)"
    by (simp only: ids)
  have "map data (offlineSubmissions (enqueueAll es s)) = map (\<lambda>e. snd (snd e)) es"
    unfolding subs by (simp add: case_prod_unfold)
  moreover have "map timestamp (offlineSubmissions (enqueueAll es s)) = map (\<lambda>e. fst (snd e)) es"
    unfolding subs by (simp add: case_prod_unfold)
  moreover have "list_all (\<lambda>x. status x = pending) (offlineSubmissions (enqueueAll es s))"
    unfolding subs by (simp add: list_all_iff case_prod_unfold)
  ultimately show ?thesis
    using ids uniq enqueueAll_persisted_first [of s es] by blast
qed

theorem enqueue_postcondition_witness:
  "offlineSubmissions mounted = []
   \<and> map data (offlineSubmissions
        (enqueueAll [(1000, 1001, exampleForm), (2000, 2000, exampleForm\<lparr>firstName := ''C''\<rparr>)]
           mounted))
      = [exampleForm, exampleForm\<lparr>firstName := ''C''\<rparr>]
   \<and> map timestamp (offlineSubmissions
        (enqueueAll [(1000, 1001, exampleForm), (2000, 2000, exampleForm\<lparr>firstName := ''C''\<rparr>)]
           mounted))
      = [1001, 2000]
   \<and> map sub_id (offlineSubmissions
        (enqueueAll [(1000, 1001, exampleForm), (2000, 2000, exampleForm\<lparr>firstName := ''C''\<rparr>)]
           mounted))
      = [toString 1000, toString 2000]
   \<and> distinct (map sub_id (offlineSubmissions
        (enqueueAll [(1000, 1001, exampleForm), (2000, 2000, exampleForm\<lparr>firstName := ''C''\<rparr>)]
           mounted)))
   \<and> \<not> storageFails mounted
   \<and> localStorage
        (enqueueAll [(1000, 1001, exampleForm), (2000, 2000, exampleForm\<lparr>firstName := ''C''\<rparr>)]
           mounted)
      = Some (offlineSubmissions
        (enqueueAll [(1000, 1001, exampleForm), (2000, 2000, exampleForm\<lparr>firstName := ''C''\<rparr>)]
           mounted))"
proof -
  have h1: "offlineSubmissions mounted = []"
    by (simp add: mounted_def)
  have h2: "distinct (map fst
      [(1000 :: nat, 1001 :: nat, exampleForm), (2000, 2000, exampleForm\<lparr>firstName := ''C''\<rparr>)])"
    by simp
  have h3: "\<not> storageFails mounted"
    by (simp add: mounted_def)
  from enqueue_postcondition [OF h1,
      of "[(1000, 1001, exampleForm), (2000, 2000, exampleForm\<lparr>firstName := ''C''\<rparr>)]"]
    h1 h2 h3
  show ?thesis
    by (simp add: toString_eq)
qed

text \<open>
  Two enqueue operations that read the same millisecond at line 150 give two records
  one id; contents, order, status and the persisted copy are as for any sequence.
\<close>

theorem enqueue_same_millisecond_counterexample:
  "map sub_id (offlineSubmissions
      (enqueueAll [(1000, 1000, exampleForm), (1000, 1001, exampleForm\<lparr>firstName := ''C''\<rparr>)]
         mounted))
     = [toString 1000, toString 1000]
   \<and> \<not> distinct (map sub_id (offlineSubmissions
      (enqueueAll [(1000, 1000, exampleForm), (1000, 1001, exampleForm\<lparr>firstName := ''C''\<rparr>)]
         mounted)))"
  by (simp add: saveOfflineSubmission_def saveOfflineSubmissions_def mounted_def Let_def)

subsection \<open>Overlapping invocations\<close>

text \<open>
  C4. \<^verbatim>\<open>syncOfflineSubmissions\<close> has no in-flight guard. When two invocations overlap
  and both run to completion, the remote call is made once for every submission pending
  in the render of the first and once more for every submission pending in the render
  of the second, whatever the order in which their \<^verbatim>\<open>await\<close>s end.
\<close>

theorem overlap_calls_per_render:
  assumes "snd (twoInvocations api n1 sched1 n2 sched2 s0) = (None, None)"
  shows "mset (apiCalls (fst (twoInvocations api n1 sched1 n2 sched2 s0))) =
         mset (apiCalls s0)
         + mset (map sub_id (filter (\<lambda>x. status x = pending) (offlineSubmissions s0)))
         + mset (map sub_id (filter (\<lambda>x. status x = pending)
                    (offlineSubmissions (fst (secondRender api n1 sched1 s0)))))"
proof -
  obtain s1 a where st1: "syncStart s0 n1 s0 = (s1, a)" by (cases "syncStart s0 n1 s0")
  obtain s2 a1 b1 where il1: "interleave api sched1 a None s1 = (s2, a1, b1)"
    by (cases "interleave api sched1 a None s1")
  obtain s3 b where st2: "syncStart s2 n2 s2 = (s3, b)" by (cases "syncStart s2 n2 s2")
  obtain s4 a2 b2 where il2: "interleave api sched2 a1 b s3 = (s4, a2, b2)"
    by (cases "interleave api sched2 a1 b s3")
  have sr: "secondRender api n1 sched1 s0 = (s2, a1)"
    by (simp add: secondRender_def st1 il1)
  have two: "twoInvocations api n1 sched1 n2 sched2 s0 = (s4, a2, b2)"
    by (simp add: twoInvocations_def sr st2 il2)
  with assms have fin: "a2 = None" "b2 = None" by simp_all
  have b1: "b1 = None"
    by (rule interleave_alone [OF il1])
  let ?P0 = "mset (map sub_id (filter (\<lambda>x. status x = pending) (offlineSubmissions s0)))"
  let ?P2 = "mset (map sub_id (filter (\<lambda>x. status x = pending) (offlineSubmissions s2)))"
  have e1: "mset (apiCalls s1) + mset (todo a) = mset (apiCalls s0) + ?P0"
    by (rule syncStart_calls [OF st1])
  have e2: "mset (apiCalls s2) + mset (todo a1) = mset (apiCalls s1) + mset (todo a)"
    using interleave_calls [OF il1] b1 by (simp add: todo_def)
  have e3: "mset (apiCalls s3) + mset (todo b) = mset (apiCalls s2) + ?P2"
    by (rule syncStart_calls [OF st2])
  have e4: "mset (apiCalls s4) = mset (apiCalls s3) + mset (todo a1) + mset (todo b)"
    using interleave_calls [OF il2] fin by (simp add: todo_def)
  have "mset (apiCalls s4) = (mset (apiCalls s3) + mset (todo b)) + mset (todo a1)"
    by (simp add: e4 ac_simps)
  also have "\<dots> = (mset (apiCalls s2) + mset (todo a1)) + ?P2"
    by (simp only: e3) (simp add: ac_simps)
  also have "\<dots> = mset (apiCalls s0) + ?P0 + ?P2"
    by (simp only: e2 e1)
  finally have "mset (apiCalls s4) = mset (apiCalls s0) + ?P0 + ?P2" .
  moreover have "fst (twoInvocations api n1 sched1 n2 sched2 s0) = s4"
    by (simp add: two)
  moreover have "fst (secondRender api n1 sched1 s0) = s2"
    by (simp add: sr)
  ultimately show ?thesis by simp
qed

theorem overlap_calls_per_render_witness:
  "snd (twoInvocations simulatedApiCall 1000 [(True, 2000)] 2500
          [(False, 3000), (True, 3500)] twoPending) = (None, None)
   \<and> mset (apiCalls (fst (twoInvocations simulatedApiCall 1000 [(True, 2000)] 2500
          [(False, 3000), (True, 3500)] twoPending))) = {#''100'', ''200'', ''100''#}"
proof -
  have fin: "snd (twoInvocations simulatedApiCall 1000 [(True, 2000)] 2500
          [(False, 3000), (True, 3500)] twoPending) = (None, None)"
    by (simp add: twoInvocations_def secondRender_def sync_defs toString_eq toString_example)
  have second: "map sub_id (filter (\<lambda>x. status x = pending)
      (offlineSubmissions (fst (secondRender simulatedApiCall 1000 [(True, 2000)] twoPending)))) = [''100'']"
    by (simp add: secondRender_def sync_defs toString_eq toString_example)
  have first: "map sub_id (filter (\<lambda>x. status x = pending) (offlineSubmissions twoPending)) = [''100'', ''200'']"
    by (simp add: sync_defs toString_example)
  have "apiCalls twoPending = []"
    by (simp add: sync_defs)
  with overlap_calls_per_render [OF fin] fin first second show ?thesis
    by simp
qed

text \<open>
  The second invocation starts while the first awaits the remote call for the first
  submission: the second submission, pending in both renders, is sent twice and three
  outcomes are announced for two submissions.
\<close>

theorem overlap_counterexample:
  "map sub_id (filter (\<lambda>x. status x = pending) (offlineSubmissions twoPending)) = [''100'', ''200'']
   \<and> snd (twoInvocations simulatedApiCall 1000 [] 1500
            [(True, 2000), (False, 2500), (True, 3000)] twoPending) = (None, None)
   \<and> apiCalls (fst (twoInvocations simulatedApiCall 1000 [] 1500
            [(True, 2000), (False, 2500), (True, 3000)] twoPending)) = [''100'', ''200'', ''200'']
   \<and> map toast_type (toasts (fst (twoInvocations simulatedApiCall 1000 [] 1500
            [(True, 2000), (False, 2500), (True, 3000)] twoPending))) =
       [info, info, success, success, success]"
  by (simp add: twoInvocations_def secondRender_def sync_defs toString_eq toString_example)

subsection \<open>Nothing pending\<close>

text \<open>
  C5. When the render of an invocation holds no pending submission,
  \<^verbatim>\<open>syncOfflineSubmissions\<close> returns at once and the component is what it was: no toast,
  no timer, the submissions and their persisted copy untouched.
\<close>

theorem sync_without_pending_is_noop:
  assumes "filter (\<lambda>x. status x = pending) (offlineSubmissions r) = []"
  shows "syncOfflineSubmissions api r now s = s \<and> syncStart r now s = (s, None)"
  using assms by (simp add: syncOfflineSubmissions_def syncStart_def)

theorem sync_without_pending_is_noop_witness:
  "filter (\<lambda>x. status x = pending) (offlineSubmissions settled) = []
   \<and> syncOfflineSubmissions simulatedApiCall settled 5000 settled = settled
   \<and> toasts (syncOfflineSubmissions simulatedApiCall settled 5000 settled) = []
   \<and> localStorage (syncOfflineSubmissions simulatedApiCall settled 5000 settled) = localStorage settled"
proof -
  have h: "filter (\<lambda>x. status x = pending) (offlineSubmissions settled) = []"
    by (simp add: settled_def submission_def)
  from sync_without_pending_is_noop [OF h, of simulatedApiCall 5000 settled] h show ?thesis
    by (simp add: settled_def mounted_def)
qed

subsection \<open>Validation\<close>

text \<open>
  C6. \<^verbatim>\<open>validateForm\<close> reports, field by field, an error for the first name and for the
  last name when the field is empty after trimming, and for the email when it is empty
  after trimming or does not match the pattern; it reports nothing exactly when first
  name and last name hold a character other than whitespace and the email has the form
  local@domain.tld. Submitting with an empty first name and the other two fields valid
  yields the single error for \<^verbatim>\<open>firstName\<close>, creates no submission and emits one toast,
  of kind error.
\<close>

theorem validation_contract:
  "(newErrors fd = [] \<longleftrightarrow>
      trim (firstName fd) \<noteq> [] \<and> trim (lastName fd) \<noteq> [] \<and> simpleEmail (email fd))
   \<and> map_of (newErrors fd) ''firstName'' =
      (if trim (firstName fd) = [] then Some ''First name is required'' else None)
   \<and> map_of (newErrors fd) ''lastName'' =
      (if trim (lastName fd) = [] then Some ''Last name is required'' else None)
   \<and> map_of (newErrors fd) ''email'' =
      (if trim (email fd) = [] then Some ''Email is required''
       else if simpleEmail (email fd) then None else Some ''Please enter a valid email'')
   \<and> set (map fst (newErrors fd)) \<subseteq> {''firstName'', ''lastName'', ''email''}
   \<and> errors (fst (validateForm r s)) = newErrors (formData r)
   \<and> snd (validateForm r s) = (newErrors (formData r) = [])
   \<and> (firstName (formData r) = [] \<and> trim (lastName (formData r)) \<noteq> []
        \<and> simpleEmail (email (formData r)) \<longrightarrow>
      errors (fst (handleSubmit r now now2 now3 s)) =
          [(''firstName'', ''First name is required'')]
      \<and> offlineSubmissions (fst (handleSubmit r now now2 now3 s)) = offlineSubmissions s
      \<and> localStorage (fst (handleSubmit r now now2 now3 s)) = localStorage s
      \<and> toasts (fst (handleSubmit r now now2 now3 s)) =
          toasts s @ [\<lparr>toast_id = toString now, toast_type = error,
                       message = ''Please fix the errors in the form''\<rparr>]
      \<and> snd (handleSubmit r now now2 now3 s) = False)"
proof -
  have keys: "set (map fst (newErrors fd)) \<subseteq> {''firstName'', ''lastName'', ''email''}"
    by (auto simp: newErrors_def)
  have validate: "errors (fst (validateForm r s)) = newErrors (formData r)"
    "snd (validateForm r s) = (newErrors (formData r) = [])"
    by (simp_all add: validateForm_def)
  have submit: "errors (fst (handleSubmit r now now2 now3 s)) =
          [(''firstName'', ''First name is required'')]
      \<and> offlineSubmissions (fst (handleSubmit r now now2 now3 s)) = offlineSubmissions s
      \<and> localStorage (fst (handleSubmit r now now2 now3 s)) = localStorage s
      \<and> toasts (fst (handleSubmit r now now2 now3 s)) =
          toasts s @ [\<lparr>toast_id = toString now, toast_type = error,
                       message = ''Please fix the errors in the form''\<rparr>]
      \<and> snd (handleSubmit r now now2 now3 s) = False"
    if "firstName (formData r) = []" "trim (lastName (formData r)) \<noteq> []"
      "simpleEmail (email (formData r))"
  proof -
    have "newErrors (formData r) = [(''firstName'', ''First name is required'')]"
      using that by (rule newErrors_only_firstName)
    then show ?thesis
      by (simp add: handleSubmit_def validateForm_def addToast_def Let_def)
  qed
  show ?thesis
    using newErrors_empty [of fd] newErrors_fields [of fd] keys validate submit
    by blast
qed

theorem validation_contract_witness:
  "firstName (formData noFirstName) = [] \<and> trim (lastName (formData noFirstName)) \<noteq> []
   \<and> simpleEmail (email (formData noFirstName))
   \<and> errors (fst (handleSubmit noFirstName 1000 1000 1001 noFirstName))
       = [(''firstName'', ''First name is required'')]
   \<and> offlineSubmissions (fst (handleSubmit noFirstName 1000 1000 1001 noFirstName)) = []
   \<and> map toast_type (toasts (fst (handleSubmit noFirstName 1000 1000 1001 noFirstName))) = [error]
   \<and> newErrors exampleForm = []"
proof -
  have h: "firstName (formData noFirstName) = []" "trim (lastName (formData noFirstName)) \<noteq> []"
    "simpleEmail (email (formData noFirstName))"
    by (simp_all add: noFirstName_def exampleForm_def trim_def isSpace_def simpleEmail_example)
  have "offlineSubmissions noFirstName = []" "toasts noFirstName = []"
    by (simp_all add: noFirstName_def mounted_def)
  with validation_contract [of exampleForm noFirstName noFirstName 1000 1000 1001] h
  show ?thesis
    by (simp add: newErrors_exampleForm)
qed

text \<open>
  A first name of one space is not empty, and yet it is reported: the claim without
  the trimming fails.
\<close>

theorem validation_blank_name_counterexample:
  "firstName blankFirstName \<noteq> [] \<and> lastName blankFirstName \<noteq> []
   \<and> email blankFirstName \<noteq> [] \<and> test emailPattern (email blankFirstName)
   \<and> newErrors blankFirstName = [(''firstName'', ''First name is required'')]"
  by (simp add: blankFirstName_def exampleForm_def newErrors_def trim_def isSpace_def
      emailPattern_def Plus_def notSpaceAt_def)

subsection \<open>Submitting while offline\<close>



subsection \<open>A failing write\<close>

text \<open>
  C8. When \<^verbatim>\<open>localStorage.setItem\<close> throws during an enqueue, the error is printed to
  the console, the new submission stays in the in-memory store and the persisted copy is
  what it was; the same holds for the other writes of the store, such as the one that
  begins a turn of the sync loop and the purge. Every operation (enqueue, the blocks of a sync, the purge, a whole sync
  run, a submit), on a component whose write fails and on one with the same memory whose
  write succeeds, ends in the same memory: what follows behaves as if the write had
  succeeded.
\<close>

theorem persistence_failure_keeps_memory:
  assumes "storageFails s" and "inMemory t = inMemory s"
  shows "offlineSubmissions (fst (saveOfflineSubmission r d now now2 s)) =
           offlineSubmissions r @
             [\<lparr>sub_id = toString now, data = d, timestamp = now2, status = pending\<rparr>]
         \<and> console (fst (saveOfflineSubmission r d now now2 s)) =
             console s @ [''Error saving offline submissions:'']
         \<and> localStorage (fst (saveOfflineSubmission r d now now2 s)) = localStorage s
         \<and> offlineSubmissions (beginSync subs x s) = withStatus (sub_id x) syncing subs
         \<and> console (beginSync subs x s) = console s @ [''Error saving offline submissions:'']
         \<and> localStorage (beginSync subs x s) = localStorage s
         \<and> offlineSubmissions (fire (PurgeSynced subs) s) =
             filter (\<lambda>y. status y \<noteq> synced) subs
         \<and> console (fire (PurgeSynced subs) s) =
             console s @ [''Error saving offline submissions:'']
         \<and> localStorage (fire (PurgeSynced subs) s) = localStorage s
         \<and> inMemory (fst (saveOfflineSubmission r d now now2 s)) =
             inMemory (fst (saveOfflineSubmission r d now now2 t))
         \<and> inMemory (beginSync subs x s) = inMemory (beginSync subs x t)
         \<and> inMemory (endSync subs ok x now s) = inMemory (endSync subs ok x now t)
         \<and> inMemory (fire tm s) = inMemory (fire tm t)
         \<and> inMemory (syncOfflineSubmissions api r now s) =
             inMemory (syncOfflineSubmissions api r now t)
         \<and> inMemory (fst (handleSubmit r now now2 now3 s)) =
             inMemory (fst (handleSubmit r now now2 now3 t))"
proof -
  have eq: "inMemory s = inMemory t" using assms(2) by simp
  have "offlineSubmissions (fst (saveOfflineSubmission r d now now2 s)) =
           offlineSubmissions r @
             [\<lparr>sub_id = toString now, data = d, timestamp = now2, status = pending\<rparr>]"
    by (simp add: saveOfflineSubmission_def saveOfflineSubmissions_def Let_def)
  moreover have "console (fst (saveOfflineSubmission r d now now2 s)) =
             console s @ [''Error saving offline submissions:'']"
    using assms(1) by (simp add: saveOfflineSubmission_def saveOfflineSubmissions_def Let_def)
  moreover have "localStorage (fst (saveOfflineSubmission r d now now2 s)) = localStorage s"
    using assms(1) by (simp add: saveOfflineSubmission_def saveOfflineSubmissions_def Let_def)
  moreover have "offlineSubmissions (beginSync subs x s) = withStatus (sub_id x) syncing subs"
    "console (beginSync subs x s) = console s @ [''Error saving offline submissions:'']"
    "localStorage (beginSync subs x s) = localStorage s"
    using assms(1) by (simp_all add: beginSync_def saveOfflineSubmissions_def Let_def)
  moreover have "offlineSubmissions (fire (PurgeSynced subs) s) =
      filter (\<lambda>y. status y \<noteq> synced) subs"
    "console (fire (PurgeSynced subs) s) = console s @ [''Error saving offline submissions:'']"
    "localStorage (fire (PurgeSynced subs) s) = localStorage s"
    using assms(1) by (simp_all add: saveOfflineSubmissions_def Let_def)
  ultimately show ?thesis
    using inMemory_saveOfflineSubmission [OF eq] inMemory_beginSync [OF eq]
      inMemory_endSync [OF eq] inMemory_fire [OF eq] inMemory_sync [OF eq]
      inMemory_handleSubmit [OF eq]
    by simp
qed

theorem persistence_failure_keeps_memory_witness:
  "storageFails (mounted\<lparr>storageFails := True\<rparr>)
   \<and> inMemory mounted = inMemory (mounted\<lparr>storageFails := True\<rparr>)
   \<and> offlineSubmissions (fst (saveOfflineSubmission mounted exampleForm 1000 1001
         (mounted\<lparr>storageFails := True\<rparr>))) =
       [\<lparr>sub_id = toString 1000, data = exampleForm, timestamp = 1001, status = pending\<rparr>]
   \<and> console (fst (saveOfflineSubmission mounted exampleForm 1000 1001
         (mounted\<lparr>storageFails := True\<rparr>))) = [''Error saving offline submissions:'']
   \<and> localStorage (fst (saveOfflineSubmission mounted exampleForm 1000 1001
         (mounted\<lparr>storageFails := True\<rparr>))) = None
   \<and> inMemory (fst (saveOfflineSubmission mounted exampleForm 1000 1001
         (mounted\<lparr>storageFails := True\<rparr>))) =
       inMemory (fst (saveOfflineSubmission mounted exampleForm 1000 1001 mounted))"
proof -
  have h1: "storageFails (mounted\<lparr>storageFails := True\<rparr>)" by simp
  have h2: "inMemory mounted = inMemory (mounted\<lparr>storageFails := True\<rparr>)"
    by (simp add: inMemory_def)
  have "offlineSubmissions mounted = []" "console mounted = []" "localStorage mounted = None"
    by (simp_all add: mounted_def)
  with persistence_failure_keeps_memory [OF h1 h2, of mounted exampleForm 1000 1001] h1 h2
  show ?thesis by simp
qed

subsection \<open>Toasts\<close>

text \<open>
  C9. Every call of \<^verbatim>\<open>addToast\<close> appends exactly one entry, whatever entries are
  there already, and schedules one timer due 5000 ms after the call. When the timer
  fires it removes the entries whose id is the call's \<^verbatim>\<open>Date.now()\<close> in decimal
  form: the entry of the call and any other created in the same millisecond; the entries
  created at any other time stay.
\<close>

theorem addToast_lifecycle:
  "toasts (addToast ty msg now s) =
     toasts s @ [\<lparr>toast_id = toString now, toast_type = ty, message = msg\<rparr>]
   \<and> timers (addToast ty msg now s) = timers s @ [(now + 5000, RemoveToast (toString now))]
   \<and> toasts (fire (RemoveToast (toString now)) u) =
       filter (\<lambda>t. toast_id t \<noteq> toString now) (toasts u)
   \<and> (n \<noteq> now \<longrightarrow>
        filter (\<lambda>t. toast_id t = toString n) (toasts (fire (RemoveToast (toString now)) u)) =
        filter (\<lambda>t. toast_id t = toString n) (toasts u))"
  by (auto simp: addToast_def Let_def dest: toString_inj intro!: filter_cong)

theorem addToast_lifecycle_witness:
  "(2000 :: nat) \<noteq> 1000
   \<and> map toast_id (toasts (addToast info ''saved'' 2000 (addToast info ''saved'' 1000 mounted)))
       = [toString 1000, toString 2000]
   \<and> map fst (timers (addToast info ''saved'' 2000 (addToast info ''saved'' 1000 mounted)))
       = [6000, 7000]
   \<and> map toast_id (toasts (fire (RemoveToast (toString 1000))
         (addToast info ''saved'' 2000 (addToast info ''saved'' 1000 mounted))))
       = [toString 2000]"
proof -
  have "toasts mounted = []" "timers mounted = []"
    by (simp_all add: mounted_def)
  with addToast_lifecycle [of info "''saved''" 2000 "addToast info ''saved'' 1000 mounted"
      "addToast info ''saved'' 2000 (addToast info ''saved'' 1000 mounted)" 2000]
    addToast_lifecycle [of info "''saved''" 1000 mounted mounted 2000]
  show ?thesis
    by (simp add: toString_eq)
qed

text \<open>
  Two calls in one millisecond make two entries; the timer of the first removes both.
\<close>

theorem addToast_same_millisecond_counterexample:
  "length (toasts (addToast info ''saved'' 1000 (addToast info ''saved'' 1000 mounted))) = 2
   \<and> hd (timers (addToast info ''saved'' 1000 (addToast info ''saved'' 1000 mounted)))
       = (6000, RemoveToast (toString 1000))
   \<and> toasts (fire (RemoveToast (toString 1000))
         (addToast info ''saved'' 1000 (addToast info ''saved'' 1000 mounted))) = []"
  by (simp add: addToast_def mounted_def Let_def)

subsection \<open>Clear Form\<close>

text \<open>
  C10. The Clear Form action sets every field of the form to the empty string and
  empties the validation errors; the offline submissions, their persisted copy and the
  active toasts stay as they were.
\<close>

theorem clearForm_frame:
  "formData (clearForm s) = emptyForm
   \<and> firstName (formData (clearForm s)) = []
   \<and> lastName (formData (clearForm s)) = []
   \<and> email (formData (clearForm s)) = []
   \<and> address (formData (clearForm s)) = []
   \<and> city (formData (clearForm s)) = []
   \<and> state (formData (clearForm s)) = []
   \<and> postalCode (formData (clearForm s)) = []
   \<and> errors (clearForm s) = []
   \<and> offlineSubmissions (clearForm s) = offlineSubmissions s
   \<and> localStorage (clearForm s) = localStorage s
   \<and> toasts (clearForm s) = toasts s
   \<and> timers (clearForm s) = timers s"
  by (simp add: clearForm_def emptyForm_def)

end
